theory Spec2Isabelle
  imports Main "HOL-Library.Word" "HOL-Library.AList"
begin

section \<open>SignalValue (jsiStore.h, jsiStore.cpp lines 16-87)\<close>

text \<open>
  Machine types. \<open>uint64_t\<close> is a 64-bit unsigned word whose addition wraps, as
  \<open>fetch_add\<close> does; \<open>size_t\<close> is taken at 64 bits too (no property below depends on
  its width). A \<open>double\<close> is carried as its IEEE-754 binary64 bit pattern: the store
  only copies doubles, it never computes with them, and the literal \<open>0.0\<close> is the
  all-zero pattern.
\<close>

type_synonym uint64_t = "64 word"
type_synonym size_t = "64 word"
type_synonym double = "64 word"

text \<open>\<open>enum class Type\<close> of \<open>SignalValue\<close>.\<close>

datatype Type = Undefined | Null | Boolean | Number | String | Object

text \<open>
  The four private members of \<open>SignalValue\<close>. A member \<open>name_\<close> of the source is
  written \<open>name_m\<close> throughout: an Isabelle name cannot end in an underscore.
\<close>

record SignalValue =
  type_m :: Type
  boolValue_m :: bool
  numberValue_m :: double
  stringValue_m :: string

text \<open>
  A \<open>jsi::Value\<close> of the host runtime, by kind. Whatever is neither undefined, null,
  a boolean, a number nor a string (an object, an array, a symbol, a bigint) is
  \<open>jsi_object t\<close>, where \<open>t\<close> is the UTF-8 text that the runtime's
  \<open>toString(rt).utf8(rt)\<close> gives for it; the runtime itself is outside the repository.
\<close>

datatype jsi_Value =
  jsi_undefined
| jsi_null
| jsi_bool bool
| jsi_number double
| jsi_string string
| jsi_object string

fun isObject :: "jsi_Value \<Rightarrow> bool" where
  "isObject (jsi_object t) = True"
| "isObject x = False"

text \<open>The five constructors, in the order of the source.\<close>

definition SignalValue_default :: SignalValue where
  "SignalValue_default =
     \<lparr>type_m = Undefined, boolValue_m = False, numberValue_m = 0, stringValue_m = []\<rparr>"

definition SignalValue_bool :: "bool \<Rightarrow> SignalValue" where
  "SignalValue_bool val =
     \<lparr>type_m = Boolean, boolValue_m = val, numberValue_m = 0, stringValue_m = []\<rparr>"

definition SignalValue_double :: "double \<Rightarrow> SignalValue" where
  "SignalValue_double val =
     \<lparr>type_m = Number, boolValue_m = False, numberValue_m = val, stringValue_m = []\<rparr>"

definition SignalValue_string :: "string \<Rightarrow> SignalValue" where
  "SignalValue_string val =
     \<lparr>type_m = String, boolValue_m = False, numberValue_m = 0, stringValue_m = val\<rparr>"

text \<open>
  The constructor from a \<open>jsi::Value\<close>: the member initialisers set \<open>boolValue_\<close> and
  \<open>numberValue_\<close>, \<open>stringValue_\<close> is default-constructed (empty), and the
  \<open>if\<close>/\<open>else if\<close> chain assigns the kind and the one payload that belongs to it.
\<close>

fun SignalValue_jsi :: "jsi_Value \<Rightarrow> SignalValue" where
  "SignalValue_jsi jsi_undefined =
     \<lparr>type_m = Undefined, boolValue_m = False, numberValue_m = 0, stringValue_m = []\<rparr>"
| "SignalValue_jsi jsi_null =
     \<lparr>type_m = Null, boolValue_m = False, numberValue_m = 0, stringValue_m = []\<rparr>"
| "SignalValue_jsi (jsi_bool b) =
     \<lparr>type_m = Boolean, boolValue_m = b, numberValue_m = 0, stringValue_m = []\<rparr>"
| "SignalValue_jsi (jsi_number d) =
     \<lparr>type_m = Number, boolValue_m = False, numberValue_m = d, stringValue_m = []\<rparr>"
| "SignalValue_jsi (jsi_string s) =
     \<lparr>type_m = String, boolValue_m = False, numberValue_m = 0, stringValue_m = s\<rparr>"
| "SignalValue_jsi (jsi_object t) =
     \<lparr>type_m = Object, boolValue_m = False, numberValue_m = 0, stringValue_m = t\<rparr>"

text \<open>The inline accessors of the header: each returns its member unconditionally.\<close>

definition getType :: "SignalValue \<Rightarrow> Type" where
  "getType v = type_m v"

definition asBoolean :: "SignalValue \<Rightarrow> bool" where
  "asBoolean v = boolValue_m v"

definition asNumber :: "SignalValue \<Rightarrow> double" where
  "asNumber v = numberValue_m v"

definition asString :: "SignalValue \<Rightarrow> string" where
  "asString v = stringValue_m v"

text \<open>
  \<open>SignalValue::toJSI\<close>: a \<open>switch\<close> on the kind. Its \<open>default:\<close> label answers
  only an enumerator outside the six declared ones, which the datatype does not have.
\<close>

definition toJSI :: "SignalValue \<Rightarrow> jsi_Value" where
  "toJSI v =
     (case type_m v of
        Undefined \<Rightarrow> jsi_undefined
      | Null \<Rightarrow> jsi_null
      | Boolean \<Rightarrow> jsi_bool (boolValue_m v)
      | Number \<Rightarrow> jsi_number (numberValue_m v)
      | String \<Rightarrow> jsi_string (stringValue_m v)
      | Object \<Rightarrow> jsi_string (stringValue_m v))"

text \<open>
  The values a C++ caller can hold: those built by one of the five constructors
  (copies are equal to their originals).
\<close>

inductive constructed :: "SignalValue \<Rightarrow> bool" where
  by_default: "constructed SignalValue_default"
| by_bool: "constructed (SignalValue_bool b)"
| by_double: "constructed (SignalValue_double d)"
| by_string: "constructed (SignalValue_string s)"
| by_jsi: "constructed (SignalValue_jsi x)"

code_pred constructed .

section \<open>Signal (jsiStore.cpp lines 97-158)\<close>

text \<open>
  What a C++ call can throw: the \<open>std::runtime_error\<close> of the store, with its message,
  or any other object (a subscriber may throw whatever it likes), named by a tag.
  Running out of memory (\<open>std::bad_alloc\<close>) is not modelled.
\<close>

datatype exn = runtime_error string | other_exception string

text \<open>
  A subscriber is a \<open>std::function<void(const SignalValue&)>\<close>: arbitrary user
  code. It is modelled as a function that receives the value and the state \<open>'w\<close> of the
  world it acts on (its captured variables, logs, the UI), and either returns or throws,
  leaving that world changed in both cases. The world is separate from the signal and
  the store: a subscriber that calls back into the store is not covered.
\<close>

type_synonym 'w callback = "SignalValue \<Rightarrow> 'w \<Rightarrow> (exn + unit) \<times> 'w"

text \<open>
  The members of \<open>Signal\<close>. The mutex is not modelled: all operations here run one
  after the other. \<open>subscribers_\<close> is a \<open>std::unordered_map\<close>; it is an association list
  whose order stands for the iteration order of the table, which C++ leaves unspecified.
\<close>

record 'w Signal =
  value_m :: SignalValue
  version_m :: uint64_t
  subscribers_m :: "(size_t \<times> 'w callback) list"
  nextSubscriberId_m :: size_t

definition Signal_ctor :: "SignalValue \<Rightarrow> 'w Signal" where
  "Signal_ctor initialValue =
     \<lparr>value_m = initialValue, version_m = 0, subscribers_m = [], nextSubscriberId_m = 0\<rparr>"

definition getValue :: "'w Signal \<Rightarrow> SignalValue" where
  "getValue s = value_m s"

definition getVersion :: "'w Signal \<Rightarrow> uint64_t" where
  "getVersion s = version_m s"

text \<open>
  An observation added to the model: every invocation of a subscriber is recorded as the
  pair of its subscription id and the value it was handed, in the order of the calls.
\<close>

type_synonym call = "size_t \<times> SignalValue"

text \<open>\<open>try { body } catch (...) { }\<close>: an exception of the body ends there.\<close>

definition try_catch_all :: "('w \<Rightarrow> (exn + unit) \<times> 'w) \<Rightarrow> 'w \<Rightarrow> (exn + unit) \<times> 'w" where
  "try_catch_all body w =
     (case body w of
        (Inl e, w') \<Rightarrow> (Inr (), w')
      | (Inr u, w') \<Rightarrow> (Inr u, w'))"

text \<open>
  The range-\<open>for\<close> over \<open>subscribersCopy\<close> in \<open>setValue\<close>. An exception that left
  the loop body would end the loop and leave \<open>setValue\<close>; the first case keeps that path.
\<close>

fun for_each_subscriber ::
  "(size_t \<times> 'w callback) list \<Rightarrow> SignalValue \<Rightarrow> 'w \<Rightarrow> (exn + unit) \<times> 'w \<times> call list" where
  "for_each_subscriber [] currentValue w = (Inr (), w, [])"
| "for_each_subscriber ((sid, callback) # rest) currentValue w =
     (case try_catch_all (callback currentValue) w of
        (Inl e, w') \<Rightarrow> (Inl e, w', [(sid, currentValue)])
      | (Inr u, w') \<Rightarrow>
          (case for_each_subscriber rest currentValue w' of
             (r, w'', calls) \<Rightarrow> (r, w'', (sid, currentValue) # calls)))"

text \<open>
  \<open>Signal::setValue\<close>: assign the value, \<open>fetch_add(1)\<close> on the version, copy the
  subscribers and the value, then call every copied subscriber with the copied value.
  The result is the outcome (returned or threw), the signal, the world and the calls made.
\<close>

definition setValue ::
  "'w Signal \<Rightarrow> SignalValue \<Rightarrow> 'w \<Rightarrow> (exn + unit) \<times> 'w Signal \<times> 'w \<times> call list" where
  "setValue s newValue w =
     (let s1 = s\<lparr>value_m := newValue\<rparr>;
          s2 = s1\<lparr>version_m := version_m s1 + 1\<rparr>;
          subscribersCopy = subscribers_m s2;
          currentValue = value_m s2
      in case for_each_subscriber subscribersCopy currentValue w of
           (r, w', calls) \<Rightarrow> (r, s2, w', calls))"

text \<open>
  \<open>Signal::subscribe\<close>: \<open>id = nextSubscriberId_++\<close>, then \<open>subscribers_[id] = callback\<close>,
  which replaces the entry of an id already present and adds one otherwise.
\<close>

definition subscribe :: "'w Signal \<Rightarrow> 'w callback \<Rightarrow> size_t \<times> 'w Signal" where
  "subscribe s callback =
     (let sid = nextSubscriberId_m s;
          s1 = s\<lparr>nextSubscriberId_m := nextSubscriberId_m s + 1\<rparr>;
          s2 = s1\<lparr>subscribers_m := AList.update sid callback (subscribers_m s1)\<rparr>
      in (sid, s2))"

text \<open>\<open>Signal::unsubscribe\<close>: \<open>subscribers_.erase(id)\<close>.\<close>

definition unsubscribe :: "'w Signal \<Rightarrow> size_t \<Rightarrow> 'w Signal" where
  "unsubscribe s sid = s\<lparr>subscribers_m := AList.delete sid (subscribers_m s)\<rparr>"

text \<open>A caller that writes the values of a list to one signal, one after the other.\<close>

fun writes ::
  "'w Signal \<Rightarrow> SignalValue list \<Rightarrow> 'w \<Rightarrow> (exn + unit) list \<times> 'w Signal \<times> 'w \<times> call list" where
  "writes s [] w = ([], s, w, [])"
| "writes s (v # vs) w =
     (case setValue s v w of
        (r, s1, w1, calls1) \<Rightarrow>
          (case writes s1 vs w1 of
             (rs, s2, w2, calls2) \<Rightarrow> (r # rs, s2, w2, calls1 @ calls2)))"

section \<open>JSISignalStore (jsiStore.cpp lines 168-329)\<close>

text \<open>
  The members of the store. \<open>signals_\<close> maps an id to a \<open>shared_ptr<Signal>\<close>; every
  entry is given its own \<open>Signal\<close> by \<open>make_shared\<close> and no pointer is ever copied into
  another entry, so the map holds the signals themselves, and a \<open>shared_ptr\<close> that an
  operation has taken from an entry is represented by the id of that entry.
\<close>

record 'w JSISignalStore =
  signals_m :: "string \<rightharpoonup> 'w Signal"
  nextSignalId_m :: uint64_t

definition JSISignalStore_ctor :: "'w JSISignalStore" where
  "JSISignalStore_ctor = \<lparr>signals_m = Map.empty, nextSignalId_m = 0\<rparr>"

text \<open>\<open>operator<<\<close> on an unsigned and on a signed integer: decimal digits, no padding.\<close>

definition digit_char :: "nat \<Rightarrow> char" where
  "digit_char d = ''0123456789'' ! d"

fun show_nat :: "nat \<Rightarrow> string" where
  "show_nat n =
     (if n < 10 then [digit_char n]
      else show_nat (n div 10) @ [digit_char (n mod 10)])"

declare show_nat.simps [simp del]

definition show_int :: "int \<Rightarrow> string" where
  "show_int i = (if i < 0 then CHR ''-'' # show_nat (nat (- i)) else show_nat (nat i))"

text \<open>
  \<open>generateSignalId\<close>: \<open>fetch_add(1)\<close> returns the counter before the increment; \<open>now\<close>
  is the tick count of \<open>system_clock\<close>, a signed 64-bit integer read from outside.
\<close>

definition generateSignalId :: "'w JSISignalStore \<Rightarrow> 64 word \<Rightarrow> string \<times> 'w JSISignalStore" where
  "generateSignalId st now =
     (let counter = nextSignalId_m st;
          st1 = st\<lparr>nextSignalId_m := nextSignalId_m st + 1\<rparr>
      in (''sig_'' @ show_nat (unat counter) @ ''_'' @ show_int (sint now), st1))"

definition createSignal ::
  "'w JSISignalStore \<Rightarrow> SignalValue \<Rightarrow> 64 word \<Rightarrow> string \<times> 'w JSISignalStore" where
  "createSignal st initialValue now =
     (case generateSignalId st now of
        (sid, st1) \<Rightarrow>
          (sid, st1\<lparr>signals_m := (signals_m st1)(sid \<mapsto> Signal_ctor initialValue)\<rparr>))"

definition getSignal :: "'w JSISignalStore \<Rightarrow> string \<Rightarrow> exn + SignalValue" where
  "getSignal st signalId =
     (case signals_m st signalId of
        None \<Rightarrow> Inl (runtime_error (''Signal not found: '' @ signalId))
      | Some signal \<Rightarrow> Inr (getValue signal))"

text \<open>
  \<open>signal->setValue(v)\<close> through the pointer taken from the entry \<open>ref\<close>: the signal of
  that entry is written. The entry cannot have gone in between, as nothing else runs;
  the model leaves the store as it is if it had.
\<close>

definition setValue_through ::
  "'w JSISignalStore \<Rightarrow> string \<Rightarrow> SignalValue \<Rightarrow> 'w \<Rightarrow>
     (exn + unit) \<times> 'w JSISignalStore \<times> 'w \<times> call list" where
  "setValue_through st ref v w =
     (case signals_m st ref of
        None \<Rightarrow> (Inr (), st, w, [])
      | Some signal \<Rightarrow>
          (case setValue signal v w of
             (r, signal1, w1, calls) \<Rightarrow>
               (r, st\<lparr>signals_m := (signals_m st)(ref \<mapsto> signal1)\<rparr>, w1, calls)))"

definition setSignal ::
  "'w JSISignalStore \<Rightarrow> string \<Rightarrow> SignalValue \<Rightarrow> 'w \<Rightarrow>
     (exn + unit) \<times> 'w JSISignalStore \<times> 'w \<times> call list" where
  "setSignal st signalId val w =
     (case signals_m st signalId of
        None \<Rightarrow> (Inl (runtime_error (''Signal not found: '' @ signalId)), st, w, [])
      | Some signal \<Rightarrow> setValue_through st signalId val w)"

definition hasSignal :: "'w JSISignalStore \<Rightarrow> string \<Rightarrow> bool" where
  "hasSignal st signalId = (signals_m st signalId \<noteq> None)"

definition deleteSignal :: "'w JSISignalStore \<Rightarrow> string \<Rightarrow> 'w JSISignalStore" where
  "deleteSignal st signalId = st\<lparr>signals_m := (signals_m st)(signalId := None)\<rparr>"

definition getSignalVersion :: "'w JSISignalStore \<Rightarrow> string \<Rightarrow> exn + uint64_t" where
  "getSignalVersion st signalId =
     (case signals_m st signalId of
        None \<Rightarrow> Inl (runtime_error (''Signal not found: '' @ signalId))
      | Some signal \<Rightarrow> Inr (getVersion signal))"

text \<open>
  \<open>batchUpdate\<close>, first loop: for every pair whose id is found, push the pointer on
  \<open>signalsToUpdate\<close> and the value on \<open>valuesToSet\<close>. The two vectors grow together, so
  they are one list of pairs here.
\<close>

fun found_updates ::
  "'w JSISignalStore \<Rightarrow> (string \<times> SignalValue) list \<Rightarrow> (string \<times> SignalValue) list" where
  "found_updates st [] = []"
| "found_updates st ((signalId, val) # updates) =
     (if signals_m st signalId \<noteq> None then (signalId, val) # found_updates st updates
      else found_updates st updates)"

text \<open>Second loop: \<open>signalsToUpdate[i]->setValue(valuesToSet[i])\<close> for each index.\<close>

fun update_each ::
  "'w JSISignalStore \<Rightarrow> (string \<times> SignalValue) list \<Rightarrow> 'w \<Rightarrow>
     (exn + unit) \<times> 'w JSISignalStore \<times> 'w \<times> call list" where
  "update_each st [] w = (Inr (), st, w, [])"
| "update_each st ((ref, val) # rest) w =
     (case setValue_through st ref val w of
        (Inl e, st1, w1, calls1) \<Rightarrow> (Inl e, st1, w1, calls1)
      | (Inr u, st1, w1, calls1) \<Rightarrow>
          (case update_each st1 rest w1 of
             (r, st2, w2, calls2) \<Rightarrow> (r, st2, w2, calls1 @ calls2)))"

definition batchUpdate ::
  "'w JSISignalStore \<Rightarrow> (string \<times> SignalValue) list \<Rightarrow> 'w \<Rightarrow>
     (exn + unit) \<times> 'w JSISignalStore \<times> 'w \<times> call list" where
  "batchUpdate st updates w = update_each st (found_updates st updates) w"

definition clear :: "'w JSISignalStore \<Rightarrow> 'w JSISignalStore" where
  "clear st = st\<lparr>signals_m := Map.empty\<rparr>"

subsection \<open>A caller of the store\<close>

text \<open>
  One call of a public member function, and what it gives back. \<open>invoke\<close> performs the
  call: the outcome is the returned value or the exception that left the function.
  \<open>run\<close> is a caller that makes the calls of a list one after the other and goes on
  after an exception.
\<close>

datatype operation =
  CreateSignal SignalValue "64 word"
| GetSignal string
| SetSignal string SignalValue
| HasSignal string
| DeleteSignal string
| GetSignalVersion string
| BatchUpdate "(string \<times> SignalValue) list"
| Clear

datatype returned =
  ret_id string
| ret_value SignalValue
| ret_bool bool
| ret_version uint64_t
| ret_void

fun invoke ::
  "operation \<Rightarrow> 'w JSISignalStore \<Rightarrow> 'w \<Rightarrow>
     (exn + returned) \<times> 'w JSISignalStore \<times> 'w \<times> call list" where
  "invoke (CreateSignal v now) st w =
     (case createSignal st v now of (sid, st1) \<Rightarrow> (Inr (ret_id sid), st1, w, []))"
| "invoke (GetSignal sid) st w = (map_sum id ret_value (getSignal st sid), st, w, [])"
| "invoke (SetSignal sid v) st w =
     (case setSignal st sid v w of
        (r, st1, w1, calls) \<Rightarrow> (map_sum id (\<lambda>u. ret_void) r, st1, w1, calls))"
| "invoke (HasSignal sid) st w = (Inr (ret_bool (hasSignal st sid)), st, w, [])"
| "invoke (DeleteSignal sid) st w = (Inr ret_void, deleteSignal st sid, w, [])"
| "invoke (GetSignalVersion sid) st w =
     (map_sum id ret_version (getSignalVersion st sid), st, w, [])"
| "invoke (BatchUpdate updates) st w =
     (case batchUpdate st updates w of
        (r, st1, w1, calls) \<Rightarrow> (map_sum id (\<lambda>u. ret_void) r, st1, w1, calls))"
| "invoke Clear st w = (Inr ret_void, clear st, w, [])"

fun run ::
  "operation list \<Rightarrow> 'w JSISignalStore \<Rightarrow> 'w \<Rightarrow>
     (exn + returned) list \<times> 'w JSISignalStore \<times> 'w \<times> call list" where
  "run [] st w = ([], st, w, [])"
| "run (x # xs) st w =
     (case invoke x st w of
        (r, st1, w1, calls1) \<Rightarrow>
          (case run xs st1 w1 of
             (rs, st2, w2, calls2) \<Rightarrow> (r # rs, st2, w2, calls1 @ calls2)))"

text \<open>The ids that the \<open>createSignal\<close> calls of a run returned, in order.\<close>

fun created_ids :: "operation list \<Rightarrow> (exn + returned) list \<Rightarrow> string list" where
  "created_ids (CreateSignal v now # xs) (Inr (ret_id sid) # rs) = sid # created_ids xs rs"
| "created_ids (x # xs) (r # rs) = created_ids xs rs"
| "created_ids xs rs = []"

fun is_create :: "operation \<Rightarrow> bool" where
  "is_create (CreateSignal v now) = True"
| "is_create x = False"

section \<open>Notions used in the statements\<close>

text \<open>
  The exception that \<open>getSignal\<close>, \<open>setSignal\<close> and \<open>getSignalVersion\<close> throw for an
  id that is not in the store.
\<close>

abbreviation NotFound :: "string \<Rightarrow> exn" where
  "NotFound signalId \<equiv> runtime_error (''Signal not found: '' @ signalId)"

text \<open>The text that \<open>generateSignalId\<close> builds from a counter value and a clock reading.\<close>

definition id_text :: "uint64_t \<Rightarrow> 64 word \<Rightarrow> string" where
  "id_text counter now = ''sig_'' @ show_nat (unat counter) @ ''_'' @ show_int (sint now)"

text \<open>
  The values that a batch holds for one id, in order; what a signal is after the values
  of a list have been written to it one after the other; the subscribers of an entry of
  the store; and the subscriber calls that a list of writes makes, entry by entry.
\<close>

definition values_for :: "string \<Rightarrow> (string \<times> SignalValue) list \<Rightarrow> SignalValue list" where
  "values_for sid updates = map snd (filter (\<lambda>p. fst p = sid) updates)"

definition written :: "'w Signal \<Rightarrow> SignalValue list \<Rightarrow> 'w Signal" where
  "written s vs =
     s\<lparr>value_m := last (value_m s # vs), version_m := version_m s + word_of_nat (length vs)\<rparr>"

definition subscribers_of :: "'w JSISignalStore \<Rightarrow> string \<Rightarrow> (size_t \<times> 'w callback) list" where
  "subscribers_of st sid = (case signals_m st sid of None \<Rightarrow> [] | Some s \<Rightarrow> subscribers_m s)"

definition notifications ::
  "'w JSISignalStore \<Rightarrow> (string \<times> SignalValue) list \<Rightarrow> call list" where
  "notifications st updates =
     concat (map (\<lambda>u. map (\<lambda>p. (fst p, snd u)) (subscribers_of st (fst u))) updates)"

section \<open>Example data\<close>

text \<open>
  Subscribers whose world is a log of strings: one that appends its name and returns,
  and one that appends a mark and then throws. \<open>ex_signal\<close> is a signal that has been
  written four times and has three subscribers, the middle one throwing.
\<close>

definition log_cb :: "string \<Rightarrow> string list callback" where
  "log_cb name v w = (Inr (), w @ [name])"

definition throwing_cb :: "string list callback" where
  "throwing_cb v w = (Inl (other_exception ''boom''), w @ [''threw''])"

definition ex_signal :: "string list Signal" where
  "ex_signal =
     \<lparr>value_m = SignalValue_default, version_m = 4,
      subscribers_m = [(0, log_cb ''a''), (1, throwing_cb), (2, log_cb ''b'')],
      nextSubscriberId_m = 3\<rparr>"

text \<open>
  \<open>ex_store\<close> is the store after \<open>createSignal(42.0)\<close> at clock reading 1700000000
  (4631107791820423168 is the bit pattern of 42.0); \<open>ex_store2\<close> holds a second signal.
  \<open>ex_updates\<close> is a batch for both and for an id that is in neither store, and \<open>ex_ops\<close>
  a run that creates, deletes, creates, clears and creates again.
\<close>

definition ex_store :: "string list JSISignalStore" where
  "ex_store =
     \<lparr>signals_m = [''sig_0_1700000000'' \<mapsto> Signal_ctor (SignalValue_double 4631107791820423168)],
      nextSignalId_m = 1\<rparr>"

definition ex_store2 :: "string list JSISignalStore" where
  "ex_store2 =
     \<lparr>signals_m =
        [''sig_0_1700000000'' \<mapsto> Signal_ctor (SignalValue_double 4631107791820423168),
         ''sig_1_1700000001'' \<mapsto> Signal_ctor (SignalValue_string ''b'')],
      nextSignalId_m = 2\<rparr>"

definition ex_updates :: "(string \<times> SignalValue) list" where
  "ex_updates =
     [(''sig_0_1700000000'', SignalValue_string ''a1''),
      (''sig_1_1700000001'', SignalValue_bool True),
      (''unknown'', SignalValue_default)]"

definition ex_ops :: "operation list" where
  "ex_ops =
     [CreateSignal (SignalValue_bool True) 5, DeleteSignal ''sig_0_5'',
      CreateSignal SignalValue_default 5, Clear, CreateSignal (SignalValue_string ''x'') 5]"



section \<open>Properties of SignalValue\<close>

text \<open>
  Claim C9. \<open>toJSI\<close> is defined for each of the six kinds and gives a value of the
  runtime for it: undefined, null, the stored boolean, the stored number, and for both
  String and Object the stored text as a runtime string. Its result is never an object;
  a value taken from an object comes back as the text the runtime gave for it, while a
  value taken from anything else comes back as it was.
\<close>

theorem toJSI_total:
  "(getType v = Undefined \<longrightarrow> toJSI v = jsi_undefined) \<and>
   (getType v = Null \<longrightarrow> toJSI v = jsi_null) \<and>
   (getType v = Boolean \<longrightarrow> toJSI v = jsi_bool (asBoolean v)) \<and>
   (getType v = Number \<longrightarrow> toJSI v = jsi_number (asNumber v)) \<and>
   (getType v = String \<longrightarrow> toJSI v = jsi_string (asString v)) \<and>
   (getType v = Object \<longrightarrow> toJSI v = jsi_string (asString v)) \<and>
   \<not> isObject (toJSI v) \<and>
   toJSI (SignalValue_jsi (jsi_object t)) = jsi_string t \<and>
   (\<not> isObject x \<longrightarrow> toJSI (SignalValue_jsi x) = x)"
proof -
  have prim: "\<not> isObject x \<longrightarrow> toJSI (SignalValue_jsi x) = x"
    by (cases x) (simp_all add: toJSI_def)
  have obj: "toJSI (SignalValue_jsi (jsi_object t)) = jsi_string t"
    by (simp add: toJSI_def)
  have kinds: "(getType v = Undefined \<longrightarrow> toJSI v = jsi_undefined) \<and>
   (getType v = Null \<longrightarrow> toJSI v = jsi_null) \<and>
   (getType v = Boolean \<longrightarrow> toJSI v = jsi_bool (asBoolean v)) \<and>
   (getType v = Number \<longrightarrow> toJSI v = jsi_number (asNumber v)) \<and>
   (getType v = String \<longrightarrow> toJSI v = jsi_string (asString v)) \<and>
   (getType v = Object \<longrightarrow> toJSI v = jsi_string (asString v)) \<and>
   \<not> isObject (toJSI v)"
    by (cases "type_m v")
      (simp_all add: toJSI_def getType_def asBoolean_def asNumber_def asString_def)
  from kinds obj prim show ?thesis by blast
qed

theorem toJSI_total_witness:
  "getType (SignalValue_jsi (jsi_object ''[object Object]'')) = Object \<and>
   toJSI (SignalValue_jsi (jsi_object ''[object Object]'')) = jsi_string ''[object Object]'' \<and>
   \<not> isObject (toJSI (SignalValue_jsi (jsi_object ''[object Object]''))) \<and>
   \<not> isObject (jsi_bool True) \<and>
   toJSI (SignalValue_jsi (jsi_bool True)) = jsi_bool True"
  using toJSI_total [of "SignalValue_jsi (jsi_object ''[object Object]'')" "''x''" "jsi_bool True"]
  by (simp add: getType_def asString_def)

text \<open>
  Claim C10. Every constructor sets all three payload members, so on any value that a
  constructor built the accessors are determined: \<open>asBoolean\<close> is false unless the kind
  is Boolean, \<open>asNumber\<close> is 0.0 unless the kind is Number, and \<open>asString\<close> is empty
  unless the kind is String or Object.
\<close>

theorem accessors_default:
  assumes "constructed v"
  shows "(getType v \<noteq> Boolean \<longrightarrow> asBoolean v = False) \<and>
         (getType v \<noteq> Number \<longrightarrow> asNumber v = 0) \<and>
         (getType v \<noteq> String \<and> getType v \<noteq> Object \<longrightarrow> asString v = [])"
  using assms
proof cases
  case (by_jsi x)
  then show ?thesis
    by (cases x) (simp_all add: getType_def asBoolean_def asNumber_def asString_def)
qed (simp_all add: getType_def asBoolean_def asNumber_def asString_def
       SignalValue_default_def SignalValue_bool_def SignalValue_double_def
       SignalValue_string_def)

theorem accessors_default_witness:
  "constructed (SignalValue_string ''hello'') \<and>
   getType (SignalValue_string ''hello'') \<noteq> Boolean \<and>
   asBoolean (SignalValue_string ''hello'') = False \<and>
   getType (SignalValue_string ''hello'') \<noteq> Number \<and>
   asNumber (SignalValue_string ''hello'') = 0 \<and>
   constructed (SignalValue_jsi (jsi_number 7)) \<and>
   getType (SignalValue_jsi (jsi_number 7)) \<noteq> String \<and>
   getType (SignalValue_jsi (jsi_number 7)) \<noteq> Object \<and>
   asString (SignalValue_jsi (jsi_number 7)) = []"
proof -
  have c1: "constructed (SignalValue_string ''hello'')"
    by (rule constructed.by_string)
  have c2: "constructed (SignalValue_jsi (jsi_number 7))"
    by (rule constructed.by_jsi)
  have t1: "getType (SignalValue_string ''hello'') = String"
    by (simp add: getType_def SignalValue_string_def)
  have t2: "getType (SignalValue_jsi (jsi_number 7)) = Number"
    by (simp add: getType_def)
  show ?thesis
    using c1 c2 accessors_default [OF c1] accessors_default [OF c2]
    unfolding t1 t2 by simp
qed

section \<open>Properties of Signal\<close>

lemma try_catch_all_returns: "fst (try_catch_all body w) = Inr ()"
  by (simp add: try_catch_all_def split: prod.split sum.split)

lemma try_catch_all_world: "snd (try_catch_all body w) = snd (body w)"
  by (simp add: try_catch_all_def split: prod.split sum.split)

lemma for_each_subscriber_result:
  "for_each_subscriber subs v w =
     (Inr (), fold (\<lambda>p. \<lambda>w. snd (snd p v w)) subs w, map (\<lambda>p. (fst p, v)) subs)"
proof (induction subs arbitrary: w)
  case Nil
  show ?case by simp
next
  case (Cons p subs)
  obtain sid cb where p: "p = (sid, cb)" by (cases p)
  obtain r w1 where t: "try_catch_all (cb v) w = (r, w1)" by (cases "try_catch_all (cb v) w")
  have r: "r = Inr ()" using try_catch_all_returns [of "cb v" w] t by simp
  have w1: "w1 = snd (cb v w)" using try_catch_all_world [of "cb v" w] t by simp
  show ?case by (simp add: p t r w1 Cons.IH)
qed

lemma setValue_result:
  "setValue s v w =
     (Inr (), s\<lparr>value_m := v, version_m := version_m s + 1\<rparr>,
      fold (\<lambda>p. \<lambda>w. snd (snd p v w)) (subscribers_m s) w,
      map (\<lambda>p. (fst p, v)) (subscribers_m s))"
  by (simp add: setValue_def Let_def for_each_subscriber_result)

lemma writes_result:
  "writes s vs w = (rs, s1, w1, calls) \<Longrightarrow>
     rs = replicate (length vs) (Inr ()) \<and>
     s1 = s\<lparr>value_m := last (value_m s # vs), version_m := version_m s + word_of_nat (length vs)\<rparr> \<and>
     calls = concat (map (\<lambda>v. map (\<lambda>p. (fst p, v)) (subscribers_m s)) vs)"
proof (induction vs arbitrary: s w rs s1 w1 calls)
  case Nil
  then show ?case by simp
next
  case (Cons v vs)
  let ?s = "s\<lparr>value_m := v, version_m := version_m s + 1\<rparr>"
  let ?w = "fold (\<lambda>p. \<lambda>w. snd (snd p v w)) (subscribers_m s) w"
  obtain rs' s' w' calls' where rest: "writes ?s vs ?w = (rs', s', w', calls')"
    by (cases "writes ?s vs ?w")
  from Cons.IH [OF rest] Cons.prems rest show ?case
    by (auto simp add: setValue_result)
qed

lemma writes_world:
  "writes s vs w = (rs, s1, w1, calls) \<Longrightarrow>
     w1 = fold (\<lambda>v. fold (\<lambda>p. \<lambda>w. snd (snd p v w)) (subscribers_m s)) vs w"
proof (induction vs arbitrary: s w rs s1 w1 calls)
  case Nil
  then show ?case by simp
next
  case (Cons v vs)
  let ?s = "s\<lparr>value_m := v, version_m := version_m s + 1\<rparr>"
  let ?w = "fold (\<lambda>p. \<lambda>w. snd (snd p v w)) (subscribers_m s) w"
  obtain rs' s' w' calls' where rest: "writes ?s vs ?w = (rs', s', w', calls')"
    by (cases "writes ?s vs ?w")
  from Cons.IH [OF rest] Cons.prems rest show ?case
    by (auto simp add: setValue_result)
qed

lemma filter_key_absent:
  "k \<notin> fst ` set al \<Longrightarrow> filter (\<lambda>p. fst p = k) al = []"
  by (auto simp add: filter_empty_conv)

lemma filter_key_distinct:
  "distinct (map fst al) \<Longrightarrow> map_of al k = Some v \<Longrightarrow> filter (\<lambda>p. fst p = k) al = [(k, v)]"
proof (induction al)
  case Nil
  then show ?case by simp
next
  case (Cons p al)
  show ?case
  proof (cases "fst p = k")
    case True
    have "k \<notin> fst ` set al"
      using Cons.prems(1) True by auto
    then have "filter (\<lambda>p. fst p = k) al = []"
      by (rule filter_key_absent)
    then show ?thesis using True Cons.prems(2) by (cases p) simp
  next
    case False
    then show ?thesis using Cons by (cases p) simp
  qed
qed

lemma calls_of_key:
  "filter (\<lambda>c. fst c = k) (concat (map (\<lambda>v. map (\<lambda>p. (fst p, v)) al) vs)) =
   concat (map (\<lambda>v. map (\<lambda>p. (fst p, v)) (filter (\<lambda>p. fst p = k) al)) vs)"
  by (induction vs) (simp_all add: filter_map comp_def)

lemma delete_absent: "k \<notin> fst ` set al \<Longrightarrow> AList.delete k al = al"
  by (induction al) (auto simp add: AList.delete_eq)

text \<open>
  Claim C5. Whatever the subscribers of a signal do, throw or return, \<open>setValue\<close>
  returns normally: the value is the new one, the version has been incremented once, the
  registry is as it was, every subscriber registered at the time of the write has been
  invoked once with the new value (also those after one that threw), and the world is the
  one that all of them, run in turn, leave behind. No exception reaches the writer.
\<close>

theorem setValue_isolates_subscribers:
  "setValue s v w = (r, s1, w1, calls) \<Longrightarrow>
     r = Inr () \<and>
     s1 = s\<lparr>value_m := v, version_m := version_m s + 1\<rparr> \<and>
     getValue s1 = v \<and> getVersion s1 = getVersion s + 1 \<and>
     subscribers_m s1 = subscribers_m s \<and>
     calls = map (\<lambda>p. (fst p, v)) (subscribers_m s) \<and>
     w1 = fold (\<lambda>p. \<lambda>w. snd (snd p v w)) (subscribers_m s) w"
  by (auto simp add: setValue_result getValue_def getVersion_def)

theorem setValue_isolates_subscribers_witness:
  "fst (throwing_cb (SignalValue_bool True) [''a'']) = Inl (other_exception ''boom'') \<and>
   fst (setValue ex_signal (SignalValue_bool True) []) = Inr () \<and>
   getValue (fst (snd (setValue ex_signal (SignalValue_bool True) []))) = SignalValue_bool True \<and>
   getVersion (fst (snd (setValue ex_signal (SignalValue_bool True) []))) = 5 \<and>
   snd (snd (snd (setValue ex_signal (SignalValue_bool True) []))) =
     [(0, SignalValue_bool True), (1, SignalValue_bool True), (2, SignalValue_bool True)] \<and>
   fst (snd (snd (setValue ex_signal (SignalValue_bool True) []))) = [''a'', ''threw'', ''b'']"
proof -
  obtain r s1 w1 calls
    where e: "setValue ex_signal (SignalValue_bool True) [] = (r, s1, w1, calls)"
    by (cases "setValue ex_signal (SignalValue_bool True) []")
  from setValue_isolates_subscribers [OF e] show ?thesis
    unfolding e
    by (simp add: ex_signal_def getValue_def getVersion_def log_cb_def throwing_cb_def)
qed

text \<open>
  A registry has one entry per id: that holds for a new signal and every operation of
  \<open>Signal\<close> keeps it.
\<close>

lemma registry_one_entry_per_id:
  "distinct (map fst (subscribers_m (Signal_ctor v0)))"
  "distinct (map fst (subscribers_m s)) \<Longrightarrow>
     distinct (map fst (subscribers_m (snd (subscribe s cb))))"
  "distinct (map fst (subscribers_m s)) \<Longrightarrow>
     distinct (map fst (subscribers_m (unsubscribe s k)))"
  "distinct (map fst (subscribers_m s)) \<Longrightarrow>
     distinct (map fst (subscribers_m (fst (snd (setValue s v w)))))"
  by (simp_all add: Signal_ctor_def subscribe_def Let_def unsubscribe_def setValue_result
      distinct_update distinct_delete)

text \<open>
  Claim C6. On a signal whose registry has one entry per id, \<open>subscribe\<close> registers the
  callback under the id it returns. The \<open>K\<close> writes that follow all return normally and
  invoke that subscription exactly once each, with the value of the write, in the order of
  the writes; where it is the only subscriber, the world after the writes is the one
  that the callback, run once on each written value in turn, leaves behind. After
  \<open>unsubscribe\<close> with that id, further writes never invoke it. On any
  signal, \<open>unsubscribe\<close> with an id that is not registered changes nothing. The calls are
  told apart by their id, so nothing here depends on the order in which the table is
  iterated.
\<close>

theorem subscribe_write_unsubscribe:
  assumes "distinct (map fst (subscribers_m s))"
    and "subscribe s cb = (sid, s1)"
    and "writes s1 vs w = (rs, s2, w2, calls)"
    and "writes (unsubscribe s2 sid) vs' w2 = (rs', s3, w3, calls')"
  shows "map_of (subscribers_m s1) sid = Some cb \<and>
         rs = replicate (length vs) (Inr ()) \<and>
         filter (\<lambda>c. fst c = sid) calls = map (\<lambda>v. (sid, v)) vs \<and>
         length (filter (\<lambda>c. fst c = sid) calls) = length vs \<and>
         filter (\<lambda>c. fst c = sid) calls' = [] \<and>
         (k \<notin> fst ` set (subscribers_m t) \<longrightarrow> unsubscribe t k = t) \<and>
         (subscribers_m s = [] \<longrightarrow> w2 = fold (\<lambda>v. \<lambda>w. snd (cb v w)) vs w)"
proof -
  have s1: "subscribers_m s1 = AList.update sid cb (subscribers_m s)"
    using assms(2) by (auto simp add: subscribe_def Let_def)
  have reg: "map_of (subscribers_m s1) sid = Some cb"
    by (simp add: s1 update_conv')
  have d1: "distinct (map fst (subscribers_m s1))"
    by (simp add: s1 distinct_update assms(1))
  have only: "filter (\<lambda>p. fst p = sid) (subscribers_m s1) = [(sid, cb)]"
    by (rule filter_key_distinct [OF d1 reg])
  have calls: "calls = concat (map (\<lambda>v. map (\<lambda>p. (fst p, v)) (subscribers_m s1)) vs)"
    and s2: "subscribers_m s2 = subscribers_m s1"
    using writes_result [OF assms(3)] by simp_all
  have once: "filter (\<lambda>c. fst c = sid) calls = map (\<lambda>v. (sid, v)) vs"
    unfolding calls calls_of_key only by (induction vs) simp_all
  have gone: "sid \<notin> fst ` set (subscribers_m (unsubscribe s2 sid))"
    by (auto simp add: unsubscribe_def AList.delete_eq)
  have calls': "calls' =
      concat (map (\<lambda>v. map (\<lambda>p. (fst p, v)) (subscribers_m (unsubscribe s2 sid))) vs')"
    using writes_result [OF assms(4)] by simp
  have never: "filter (\<lambda>c. fst c = sid) calls' = []"
    unfolding calls' calls_of_key filter_key_absent [OF gone] by (induction vs') simp_all
  have noop: "k \<notin> fst ` set (subscribers_m t) \<longrightarrow> unsubscribe t k = t"
    by (simp add: unsubscribe_def delete_absent)
  have ok: "rs = replicate (length vs) (Inr ())"
    using writes_result [OF assms(3)] by simp
  have alone: "subscribers_m s = [] \<longrightarrow> w2 = fold (\<lambda>v. \<lambda>w. snd (cb v w)) vs w"
    using writes_world [OF assms(3)] by (simp add: s1)
  from reg ok once never noop alone show ?thesis by simp
qed

theorem subscribe_write_unsubscribe_witness:
  "distinct (map fst (subscribers_m ex_signal)) \<and>
   fst (subscribe ex_signal (log_cb ''c'')) = 3 \<and>
   filter (\<lambda>c. fst c = 3)
     (snd (snd (snd (writes (snd (subscribe ex_signal (log_cb ''c'')))
        [SignalValue_bool True, SignalValue_double 7] [])))) =
     [(3, SignalValue_bool True), (3, SignalValue_double 7)] \<and>
   filter (\<lambda>c. fst c = 3)
     (snd (snd (snd (writes
        (unsubscribe (fst (snd (writes (snd (subscribe ex_signal (log_cb ''c'')))
           [SignalValue_bool True, SignalValue_double 7] []))) 3)
        [SignalValue_default]
        (fst (snd (snd (writes (snd (subscribe ex_signal (log_cb ''c'')))
           [SignalValue_bool True, SignalValue_double 7] [])))))))) = [] \<and>
   9 \<notin> fst ` set (subscribers_m ex_signal) \<and>
   unsubscribe ex_signal 9 = ex_signal \<and>
   subscribers_m (Signal_ctor SignalValue_default :: string list Signal) = [] \<and>
   fst (snd (snd (writes (snd (subscribe (Signal_ctor SignalValue_default) (log_cb ''c'')))
     [SignalValue_bool True, SignalValue_double 7] []))) = [''c'', ''c'']"
proof -
  let ?n = "Signal_ctor SignalValue_default :: string list Signal"
  let ?n1 = "snd (subscribe ?n (log_cb ''c''))"
  let ?X = "writes ?n1 [SignalValue_bool True, SignalValue_double 7] []"
  let ?Y = "writes (unsubscribe (fst (snd ?X)) 0) [] (fst (snd (snd ?X)))"
  have dn: "distinct (map fst (subscribers_m ?n))"
    by (simp add: Signal_ctor_def)
  have n1: "subscribe ?n (log_cb ''c'') = (0, ?n1)"
    by (simp add: subscribe_def Signal_ctor_def Let_def)
  have x2: "?X = (fst ?X, fst (snd ?X), fst (snd (snd ?X)), snd (snd (snd ?X)))"
    by simp
  have x3: "?Y = (fst ?Y, fst (snd ?Y), fst (snd (snd ?Y)), snd (snd (snd ?Y)))"
    by simp
  have em: "subscribers_m ?n = []"
    by (simp add: Signal_ctor_def)
  from subscribe_write_unsubscribe [OF dn n1 x2 x3, of 0 ?n] em
  have "fst (snd (snd ?X)) =
      fold (\<lambda>v. \<lambda>w. snd (log_cb ''c'' v w)) [SignalValue_bool True, SignalValue_double 7] []"
    by blast
  then have alone: "fst (snd (snd ?X)) = [''c'', ''c'']"
    by (simp add: log_cb_def del: writes.simps)
  let ?s1 = "snd (subscribe ex_signal (log_cb ''c''))"
  let ?W = "writes ?s1 [SignalValue_bool True, SignalValue_double 7] []"
  let ?V = "writes (unsubscribe (fst (snd ?W)) 3) [SignalValue_default] (fst (snd (snd ?W)))"
  have d: "distinct (map fst (subscribers_m ex_signal))"
    by (simp add: ex_signal_def)
  have e1: "subscribe ex_signal (log_cb ''c'') = (3, ?s1)"
    by (simp add: subscribe_def ex_signal_def Let_def)
  have e2: "?W = (fst ?W, fst (snd ?W), fst (snd (snd ?W)), snd (snd (snd ?W)))"
    by simp
  have e3: "?V = (fst ?V, fst (snd ?V), fst (snd (snd ?V)), snd (snd (snd ?V)))"
    by simp
  have u: "9 \<notin> fst ` set (subscribers_m ex_signal)"
    by (simp add: ex_signal_def)
  have f: "fst (subscribe ex_signal (log_cb ''c'')) = 3"
    by (simp add: subscribe_def ex_signal_def Let_def)
  from subscribe_write_unsubscribe [OF d e1 e2 e3, of 9 ex_signal] d f u em alone
  show ?thesis by (simp del: writes.simps)
qed

section \<open>Properties of JSISignalStore\<close>

subsection \<open>Decimal text and ids\<close>

lemma digit_char_in: "d < 10 \<Longrightarrow> digit_char d \<in> set ''0123456789''"
  unfolding digit_char_def by (rule nth_mem) simp

lemma digit_char_not_underscore: "d < 10 \<Longrightarrow> digit_char d \<noteq> CHR ''_''"
  using digit_char_in [of d] by auto

lemma digit_char_inj: "d < 10 \<Longrightarrow> e < 10 \<Longrightarrow> digit_char d = digit_char e \<Longrightarrow> d = e"
proof -
  assume d: "d < 10" and e: "e < 10" and eq: "digit_char d = digit_char e"
  have dist: "distinct ''0123456789''" by simp
  have len: "length ''0123456789'' = 10" by simp
  from nth_eq_iff_index_eq [OF dist, of d e] d e eq show "d = e"
    unfolding digit_char_def len by simp
qed

lemma show_nat_small: "n < 10 \<Longrightarrow> show_nat n = [digit_char n]"
  by (subst show_nat.simps) simp

lemma show_nat_large:
  "\<not> n < 10 \<Longrightarrow> show_nat n = show_nat (n div 10) @ [digit_char (n mod 10)]"
  by (subst show_nat.simps) simp

lemma show_nat_digit: "n < 10 \<Longrightarrow> show_nat n = [''0123456789'' ! n]"
  by (simp add: show_nat_small digit_char_def)

lemma show_nat_nonempty: "show_nat n \<noteq> []"
  by (cases "n < 10") (simp_all add: show_nat_small show_nat_large)

lemma show_nat_no_underscore: "CHR ''_'' \<notin> set (show_nat n)"
proof (induction n rule: show_nat.induct)
  case (1 n)
  show ?case
  proof (cases "n < 10")
    case True
    then show ?thesis
      using digit_char_not_underscore [of n] by (simp add: show_nat_small)
  next
    case False
    have "n mod 10 < 10" by simp
    then have "digit_char (n mod 10) \<noteq> CHR ''_''"
      by (rule digit_char_not_underscore)
    then show ?thesis
      using 1 False by (auto simp add: show_nat_large)
  qed
qed

lemma show_nat_inj: "show_nat m = show_nat n \<Longrightarrow> m = n"
proof (induction m arbitrary: n rule: show_nat.induct)
  case (1 m)
  show ?case
  proof (cases "m < 10")
    case m: True
    show ?thesis
    proof (cases "n < 10")
      case True
      then show ?thesis
        using "1.prems" m digit_char_inj [of m n] by (simp add: show_nat_small)
    next
      case False
      then show ?thesis
        using "1.prems" m show_nat_nonempty [of "n div 10"]
        by (simp add: show_nat_small show_nat_large)
    qed
  next
    case m: False
    show ?thesis
    proof (cases "n < 10")
      case True
      then show ?thesis
        using "1.prems" m show_nat_nonempty [of "m div 10"]
        by (simp add: show_nat_small show_nat_large)
    next
      case False
      from "1.prems" m False
      have pre: "show_nat (m div 10) = show_nat (n div 10)"
        and last: "digit_char (m mod 10) = digit_char (n mod 10)"
        by (simp_all add: show_nat_large)
      have q: "m div 10 = n div 10"
        using "1.IH" [OF m pre] .
      have r: "m mod 10 = n mod 10"
        using digit_char_inj [OF _ _ last] by simp
      from q r show ?thesis
        by (metis div_mult_mod_eq)
    qed
  qed
qed

lemma split_at_first:
  "xs @ c # r = ys @ c # r' \<Longrightarrow> c \<notin> set xs \<Longrightarrow> c \<notin> set ys \<Longrightarrow> xs = ys"
proof (induction xs arbitrary: ys)
  case Nil
  then show ?case by (cases ys) auto
next
  case (Cons x xs)
  then show ?case by (cases ys) auto
qed

lemma id_text_inj: "id_text c now = id_text c' now' \<Longrightarrow> c = c'"
proof -
  assume "id_text c now = id_text c' now'"
  then have "show_nat (unat c) @ CHR ''_'' # show_int (sint now) =
      show_nat (unat c') @ CHR ''_'' # show_int (sint now')"
    by (simp add: id_text_def)
  then have "show_nat (unat c) = show_nat (unat c')"
    by (rule split_at_first) (rule show_nat_no_underscore)+
  then have "unat c = unat c'" by (rule show_nat_inj)
  then show "c = c'" by (simp add: word_unat_eq_iff)
qed

subsection \<open>Single operations\<close>

lemma setValue_through_result:
  "signals_m st ref = Some s \<Longrightarrow>
     setValue_through st ref v w =
       (Inr (),
        st\<lparr>signals_m := (signals_m st)(ref \<mapsto> s\<lparr>value_m := v, version_m := version_m s + 1\<rparr>)\<rparr>,
        fold (\<lambda>p. \<lambda>w. snd (snd p v w)) (subscribers_m s) w,
        map (\<lambda>p. (fst p, v)) (subscribers_m s))"
  by (simp add: setValue_through_def setValue_result)

lemma setValue_through_absent:
  "signals_m st ref = None \<Longrightarrow> setValue_through st ref v w = (Inr (), st, w, [])"
  by (simp add: setValue_through_def)

lemma setSignal_result:
  "signals_m st sid = Some s \<Longrightarrow>
     setSignal st sid v w =
       (Inr (),
        st\<lparr>signals_m := (signals_m st)(sid \<mapsto> s\<lparr>value_m := v, version_m := version_m s + 1\<rparr>)\<rparr>,
        fold (\<lambda>p. \<lambda>w. snd (snd p v w)) (subscribers_m s) w,
        map (\<lambda>p. (fst p, v)) (subscribers_m s))"
  by (simp add: setSignal_def setValue_through_result)

lemma setSignal_absent:
  "signals_m st sid = None \<Longrightarrow> setSignal st sid v w = (Inl (NotFound sid), st, w, [])"
  by (simp add: setSignal_def)

lemma createSignal_result:
  "createSignal st v now =
     (''sig_'' @ show_nat (unat (nextSignalId_m st)) @ ''_'' @ show_int (sint now),
      \<lparr>signals_m = (signals_m st)
         (''sig_'' @ show_nat (unat (nextSignalId_m st)) @ ''_'' @ show_int (sint now)
            \<mapsto> Signal_ctor v),
       nextSignalId_m = nextSignalId_m st + 1\<rparr>)"
  by (simp add: createSignal_def generateSignalId_def Let_def)

lemma ex_store_created:
  "createSignal JSISignalStore_ctor (SignalValue_double 4631107791820423168) 1700000000 =
     (''sig_0_1700000000'', ex_store)"
proof -
  have d: "show_nat 1700000000 = ''1700000000''"
    by (simp add: show_nat_large show_nat_small digit_char_def)
  show ?thesis
    by (simp add: createSignal_result JSISignalStore_ctor_def ex_store_def show_int_def
        show_nat_digit d)
qed

lemma createSignal_id_text:
  "createSignal st v now =
     (id_text (nextSignalId_m st) now,
      \<lparr>signals_m = (signals_m st)(id_text (nextSignalId_m st) now \<mapsto> Signal_ctor v),
       nextSignalId_m = nextSignalId_m st + 1\<rparr>)"
  by (simp add: createSignal_result id_text_def)

lemma deleteSignal_absent: "signals_m st sid = None \<Longrightarrow> deleteSignal st sid = st"
  by (simp add: deleteSignal_def fun_upd_idem)

lemma update_each_returns: "fst (update_each st refs w) = Inr ()"
proof (induction refs arbitrary: st w)
  case Nil
  show ?case by simp
next
  case (Cons p refs)
  obtain ref v where p: "p = (ref, v)" by (cases p)
  show ?case
  proof (cases "signals_m st ref")
    case None
    from Cons.IH [of st w] show ?thesis
      by (simp add: p setValue_through_absent [OF None] split: prod.split)
  next
    case (Some s)
    from Cons.IH show ?thesis
      by (simp add: p setValue_through_result [OF Some] split: prod.split)
         (metis fst_conv)
  qed
qed

lemma batchUpdate_returns: "fst (batchUpdate st updates w) = Inr ()"
  by (simp add: batchUpdate_def update_each_returns)

text \<open>
  Claim C2. For every store, initial value and clock reading, \<open>createSignal\<close> returns an
  id (the call does not throw), and in the store it leaves \<open>hasSignal\<close> of that id is
  true, \<open>getSignal\<close> returns the initial value and \<open>getSignalVersion\<close> returns 0.
\<close>

theorem createSignal_fresh_signal:
  assumes "createSignal st v now = (sid, st1)"
  shows "invoke (CreateSignal v now) st w = (Inr (ret_id sid), st1, w, []) \<and>
         hasSignal st1 sid \<and>
         getSignal st1 sid = Inr v \<and>
         getSignalVersion st1 sid = Inr 0"
  using assms
  by (auto simp add: createSignal_result hasSignal_def getSignal_def getSignalVersion_def
      getValue_def getVersion_def Signal_ctor_def)

theorem createSignal_fresh_signal_witness:
  "createSignal JSISignalStore_ctor (SignalValue_double 4631107791820423168) 1700000000 =
     (''sig_0_1700000000'', ex_store) \<and>
   hasSignal ex_store ''sig_0_1700000000'' \<and>
   getSignal ex_store ''sig_0_1700000000'' = Inr (SignalValue_double 4631107791820423168) \<and>
   getSignalVersion ex_store ''sig_0_1700000000'' = Inr 0"
  using createSignal_fresh_signal [OF ex_store_created] ex_store_created by simp



text \<open>
  Claim C7. \<open>deleteSignal\<close> always returns. Afterwards \<open>hasSignal\<close> of the id is false
  and \<open>getSignal\<close> of it throws the not-found error. For an id that is not in the store
  the store is left exactly as it was; the other entries and the id counter are never
  touched.
\<close>

theorem deleteSignal_removes:
  "invoke (DeleteSignal sid) st w = (Inr ret_void, deleteSignal st sid, w, []) \<and>
   hasSignal (deleteSignal st sid) sid = False \<and>
   getSignal (deleteSignal st sid) sid = Inl (NotFound sid) \<and>
   (signals_m st sid = None \<longrightarrow> deleteSignal st sid = st) \<and>
   (other \<noteq> sid \<longrightarrow> signals_m (deleteSignal st sid) other = signals_m st other) \<and>
   nextSignalId_m (deleteSignal st sid) = nextSignalId_m st"
  using deleteSignal_absent [of st sid]
  by (auto simp add: deleteSignal_def hasSignal_def getSignal_def)

theorem deleteSignal_removes_witness:
  "hasSignal ex_store ''sig_0_1700000000'' \<and>
   hasSignal (deleteSignal ex_store ''sig_0_1700000000'') ''sig_0_1700000000'' = False \<and>
   getSignal (deleteSignal ex_store ''sig_0_1700000000'') ''sig_0_1700000000'' =
     Inl (runtime_error ''Signal not found: sig_0_1700000000'') \<and>
   signals_m ex_store ''nope'' = None \<and>
   deleteSignal ex_store ''nope'' = ex_store \<and>
   fst (invoke (DeleteSignal ''nope'') ex_store []) = Inr ret_void"
proof -
  have absent: "signals_m ex_store ''nope'' = None"
    by (simp add: ex_store_def)
  have h: "hasSignal ex_store ''sig_0_1700000000''"
    by (simp add: hasSignal_def ex_store_def)
  from deleteSignal_removes [of "''sig_0_1700000000''" ex_store "[]" "''nope''"]
    deleteSignal_removes [of "''nope''" ex_store "[]" "''nope''"] absent h
  show ?thesis by simp
qed

subsection \<open>Batches\<close>

lemma written_nil: "written s [] = s"
  by (simp add: written_def)

lemma written_step:
  "written (s\<lparr>value_m := v, version_m := version_m s + 1\<rparr>) vs = written s (v # vs)"
  by (simp add: written_def add.assoc)

lemma values_for_simps:
  "values_for sid [] = []"
  "values_for sid ((i, v) # updates) =
     (if i = sid then v # values_for sid updates else values_for sid updates)"
  by (simp_all add: values_for_def)

lemma notifications_simps:
  "notifications st [] = []"
  "notifications st ((i, v) # updates) =
     map (\<lambda>p. (fst p, v)) (subscribers_of st i) @ notifications st updates"
  by (simp_all add: notifications_def)

lemma notifications_cong:
  "(\<And>i. subscribers_of st' i = subscribers_of st i) \<Longrightarrow>
     notifications st' updates = notifications st updates"
  by (simp add: notifications_def)

lemma update_each_signals:
  "update_each st refs w = (r, st1, w1, calls) \<Longrightarrow>
     nextSignalId_m st1 = nextSignalId_m st \<and>
     signals_m st1 sid = map_option (\<lambda>s. written s (values_for sid refs)) (signals_m st sid) \<and>
     calls = notifications st refs"
proof (induction refs arbitrary: st w r st1 w1 calls)
  case Nil
  then show ?case
    by (cases "signals_m st sid") (simp_all add: values_for_simps written_nil notifications_simps)
next
  case (Cons p refs)
  obtain ref v where p: "p = (ref, v)" by (cases p)
  show ?case
  proof (cases "signals_m st ref")
    case None
    obtain r' st' w' calls' where rest: "update_each st refs w = (r', st', w', calls')"
      by (cases "update_each st refs w")
    from Cons.prems have eq: "r = r'" "st1 = st'" "w1 = w'" "calls = calls'"
      by (simp_all add: p setValue_through_absent [OF None] rest)
    have no_subs: "subscribers_of st ref = []"
      by (simp add: subscribers_of_def None)
    from Cons.IH [OF rest] None show ?thesis
      unfolding eq p
      by (cases "sid = ref") (simp_all add: values_for_simps notifications_simps no_subs)
  next
    case (Some s)
    let ?s = "s\<lparr>value_m := v, version_m := version_m s + 1\<rparr>"
    let ?st = "st\<lparr>signals_m := (signals_m st)(ref \<mapsto> ?s)\<rparr>"
    let ?w = "fold (\<lambda>p. \<lambda>w. snd (snd p v w)) (subscribers_m s) w"
    obtain r' st' w' calls' where rest: "update_each ?st refs ?w = (r', st', w', calls')"
      by (cases "update_each ?st refs ?w")
    from Cons.prems have eq: "r = r'" "st1 = st'" "w1 = w'"
      "calls = map (\<lambda>p. (fst p, v)) (subscribers_m s) @ calls'"
      by (simp_all add: p setValue_through_result [OF Some] rest)
    have subs: "subscribers_of ?st i = subscribers_of st i" for i
      using Some by (cases "i = ref") (simp_all add: subscribers_of_def)
    have here: "subscribers_of st ref = subscribers_m s"
      by (simp add: subscribers_of_def Some)
    note ih = Cons.IH [OF rest]
    have c: "calls' = notifications st refs"
      using ih notifications_cong [of ?st st refs] subs by simp
    have n: "nextSignalId_m st' = nextSignalId_m st"
      using ih by simp
    have m: "signals_m st' sid =
        map_option (\<lambda>s. written s (values_for sid (p # refs))) (signals_m st sid)"
    proof (cases "sid = ref")
      case True
      then show ?thesis using ih Some
        by (simp add: p values_for_simps written_step)
    next
      case False
      then show ?thesis using ih
        by (simp add: p values_for_simps)
    qed
    from c n m show ?thesis
      unfolding eq by (simp add: p notifications_simps here)
  qed
qed

lemma values_for_found:
  "values_for sid (found_updates st updates) =
     (if signals_m st sid = None then [] else values_for sid updates)"
  by (induction updates) (auto simp add: values_for_simps)

lemma notifications_found:
  "notifications st (found_updates st updates) = notifications st updates"
  by (induction updates) (auto simp add: notifications_simps subscribers_of_def)

text \<open>
  Claim C4. For every store and every list of pairs, \<open>batchUpdate\<close> returns normally.
  An id that was not in the store at the start is still not in it: its pairs are skipped
  without an error and without undoing anything. A signal that was in the store has
  received one \<open>setValue\<close> for each of its pairs, in order: its version has been
  incremented once per pair (in 64-bit arithmetic), its value is that of its last pair,
  and its subscribers have been called once per pair. Nothing else has changed.
\<close>

theorem batchUpdate_applies_found:
  assumes "batchUpdate st updates w = (r, st1, w1, calls)"
  shows "r = Inr () \<and>
         fst (invoke (BatchUpdate updates) st w) = Inr ret_void \<and>
         (signals_m st sid = None \<longrightarrow> signals_m st1 sid = None) \<and>
         (\<forall>s. signals_m st sid = Some s \<longrightarrow>
            signals_m st1 sid = Some (written s (values_for sid updates))) \<and>
         nextSignalId_m st1 = nextSignalId_m st \<and>
         calls = notifications st updates"
proof -
  have r: "r = Inr ()"
    using batchUpdate_returns [of st updates w] assms by simp
  have e: "update_each st (found_updates st updates) w = (r, st1, w1, calls)"
    using assms by (simp add: batchUpdate_def)
  note u = update_each_signals [OF e, of sid]
  have absent: "signals_m st sid = None \<longrightarrow> signals_m st1 sid = None"
    using u by simp
  have present: "\<forall>s. signals_m st sid = Some s \<longrightarrow>
            signals_m st1 sid = Some (written s (values_for sid updates))"
    using u by (simp add: values_for_found)
  have calls: "calls = notifications st updates"
    using u by (simp add: notifications_found)
  have inv: "fst (invoke (BatchUpdate updates) st w) = Inr ret_void"
    using assms r by simp
  from r inv absent present calls u show ?thesis by blast
qed

theorem batchUpdate_applies_found_witness:
  "fst (batchUpdate ex_store2 ex_updates []) = Inr () \<and>
   getSignal (fst (snd (batchUpdate ex_store2 ex_updates []))) ''sig_0_1700000000'' =
     Inr (SignalValue_string ''a1'') \<and>
   getSignalVersion (fst (snd (batchUpdate ex_store2 ex_updates []))) ''sig_0_1700000000'' =
     Inr 1 \<and>
   getSignal (fst (snd (batchUpdate ex_store2 ex_updates []))) ''sig_1_1700000001'' =
     Inr (SignalValue_bool True) \<and>
   getSignalVersion (fst (snd (batchUpdate ex_store2 ex_updates []))) ''sig_1_1700000001'' =
     Inr 1 \<and>
   hasSignal ex_store2 ''unknown'' = False \<and>
   hasSignal (fst (snd (batchUpdate ex_store2 ex_updates []))) ''unknown'' = False"
proof -
  let ?B = "batchUpdate ex_store2 ex_updates []"
  have e: "?B = (fst ?B, fst (snd ?B), fst (snd (snd ?B)), snd (snd (snd ?B)))"
    by simp
  have a: "signals_m ex_store2 ''sig_0_1700000000'' =
      Some (Signal_ctor (SignalValue_double 4631107791820423168))"
    by (simp add: ex_store2_def)
  have b: "signals_m ex_store2 ''sig_1_1700000001'' = Some (Signal_ctor (SignalValue_string ''b''))"
    by (simp add: ex_store2_def)
  have u: "signals_m ex_store2 ''unknown'' = None"
    by (simp add: ex_store2_def)
  from batchUpdate_applies_found [OF e, of "''sig_0_1700000000''"]
    batchUpdate_applies_found [OF e, of "''sig_1_1700000001''"]
    batchUpdate_applies_found [OF e, of "''unknown''"] a b u
  show ?thesis
    by (simp add: getSignal_def getSignalVersion_def hasSignal_def getValue_def getVersion_def
        written_def values_for_def ex_updates_def Signal_ctor_def)
qed

subsection \<open>Sequences of writes\<close>

lemma written_written: "written (written s xs) ys = written s (xs @ ys)"
  by (simp add: written_def add.assoc)


lemma run_Cons:
  "invoke x st w = (r, st', w', c') \<Longrightarrow> run xs st' w' = (rs', st'', w'', c'') \<Longrightarrow>
     run (x # xs) st w = (r # rs', st'', w'', c' @ c'')"
  by simp






subsection \<open>Ids over a run\<close>

lemma created_ids_other:
  "\<not> is_create x \<Longrightarrow> created_ids (x # xs) (r # rs) = created_ids xs rs"
  by (cases x) simp_all

lemma invoke_create:
  "invoke (CreateSignal v now) st w =
     (Inr (ret_id (id_text (nextSignalId_m st) now)),
      \<lparr>signals_m = (signals_m st)(id_text (nextSignalId_m st) now \<mapsto> Signal_ctor v),
       nextSignalId_m = nextSignalId_m st + 1\<rparr>, w, [])"
  by (simp add: createSignal_id_text)

lemma invoke_counter:
  "invoke x st w = (r, st1, w1, calls) \<Longrightarrow>
     nextSignalId_m st1 = nextSignalId_m st + (if is_create x then 1 else 0)"
proof (cases x)
  case (SetSignal i v)
  assume "invoke x st w = (r, st1, w1, calls)"
  then show ?thesis using SetSignal
    by (cases "signals_m st i") (auto simp add: setSignal_absent setSignal_result)
next
  case (BatchUpdate updates)
  assume a: "invoke x st w = (r, st1, w1, calls)"
  obtain r' st' w' calls' where
    u: "update_each st (found_updates st updates) w = (r', st', w', calls')"
    by (cases "update_each st (found_updates st updates) w")
  from a have "st1 = st'" by (simp add: BatchUpdate batchUpdate_def u)
  then show ?thesis using update_each_signals [OF u, of undefined] BatchUpdate by simp
qed (auto simp add: createSignal_id_text deleteSignal_def clear_def)

lemma created_shape:
  "run xs st w = (rs, st1, w1, calls) \<Longrightarrow> sid \<in> set (created_ids xs rs) \<Longrightarrow>
     \<exists>k now. k < length (filter is_create xs) \<and>
       sid = id_text (nextSignalId_m st + word_of_nat k) now"
proof (induction xs arbitrary: st w rs st1 w1 calls)
  case Nil
  then show ?case by simp
next
  case (Cons x xs)
  obtain r st' w' c' where i: "invoke x st w = (r, st', w', c')"
    by (cases "invoke x st w")
  obtain rs' st'' w'' c'' where rest: "run xs st' w' = (rs', st'', w'', c'')"
    by (cases "run xs st' w'")
  have rs: "rs = r # rs'"
    using Cons.prems(1) run_Cons [OF i rest] by simp
  note cnt = invoke_counter [OF i]
  show ?case
  proof (cases "is_create x")
    case False
    then have "sid \<in> set (created_ids xs rs')"
      using Cons.prems(2) by (simp add: rs created_ids_other)
    from Cons.IH [OF rest this] False cnt show ?thesis by simp
  next
    case True
    then obtain v now where x: "x = CreateSignal v now" by (cases x) simp_all
    have r: "r = Inr (ret_id (id_text (nextSignalId_m st) now))"
      using i unfolding x invoke_create by simp
    from Cons.prems(2) have "sid = id_text (nextSignalId_m st) now \<or> sid \<in> set (created_ids xs rs')"
      by (simp add: rs r x)
    then show ?thesis
    proof
      assume "sid = id_text (nextSignalId_m st) now"
      then have "0 < length (filter is_create (x # xs)) \<and>
          sid = id_text (nextSignalId_m st + word_of_nat 0) now"
        by (simp add: x)
      then show ?thesis by blast
    next
      assume "sid \<in> set (created_ids xs rs')"
      from Cons.IH [OF rest this] obtain k now' where
        k: "k < length (filter is_create xs)"
        and s: "sid = id_text (nextSignalId_m st' + word_of_nat k) now'"
        by blast
      have "Suc k < length (filter is_create (x # xs)) \<and>
          sid = id_text (nextSignalId_m st + word_of_nat (Suc k)) now'"
        using k s cnt True by (simp add: add.assoc)
      then show ?thesis by blast
    qed
  qed
qed

lemma run_counter:
  "run xs st w = (rs, st1, w1, calls) \<Longrightarrow>
     nextSignalId_m st1 = nextSignalId_m st + word_of_nat (length (filter is_create xs))"
proof (induction xs arbitrary: st w rs st1 w1 calls)
  case Nil
  then show ?case by simp
next
  case (Cons x xs)
  obtain r st' w' c' where i: "invoke x st w = (r, st', w', c')"
    by (cases "invoke x st w")
  obtain rs' st'' w'' c'' where rest: "run xs st' w' = (rs', st'', w'', c'')"
    by (cases "run xs st' w'")
  have st1: "st1 = st''"
    using Cons.prems(1) run_Cons [OF i rest] by simp
  from Cons.IH [OF rest] invoke_counter [OF i] show ?case
    unfolding st1 by (simp add: add.assoc)
qed

lemma word_of_nat_nonzero:
  assumes "0 < n" and "n < 2 ^ 64"
  shows "(word_of_nat n :: 64 word) \<noteq> 0"
proof
  assume "(word_of_nat n :: 64 word) = 0"
  then have "unat (word_of_nat n :: 64 word) = 0" by simp
  then have "n mod 2 ^ 64 = 0" by (simp add: unat_of_nat)
  with assms show False by simp
qed

lemma created_distinct:
  "run xs st w = (rs, st1, w1, calls) \<Longrightarrow> length (filter is_create xs) \<le> 2 ^ 64 \<Longrightarrow>
     distinct (created_ids xs rs)"
proof (induction xs arbitrary: st w rs st1 w1 calls)
  case Nil
  then show ?case by simp
next
  case (Cons x xs)
  obtain r st' w' c' where i: "invoke x st w = (r, st', w', c')"
    by (cases "invoke x st w")
  obtain rs' st'' w'' c'' where rest: "run xs st' w' = (rs', st'', w'', c'')"
    by (cases "run xs st' w'")
  have rs: "rs = r # rs'"
    using Cons.prems(1) run_Cons [OF i rest] by simp
  have le: "length (filter is_create xs) \<le> 2 ^ 64"
    using Cons.prems(2) by (simp split: if_splits)
  note ih = Cons.IH [OF rest le]
  show ?case
  proof (cases "is_create x")
    case False
    then show ?thesis using ih by (simp add: rs created_ids_other)
  next
    case True
    then obtain v now where x: "x = CreateSignal v now" by (cases x) simp_all
    have r: "r = Inr (ret_id (id_text (nextSignalId_m st) now))"
      using i unfolding x invoke_create by simp
    have st': "nextSignalId_m st' = nextSignalId_m st + 1"
      using invoke_counter [OF i] True by simp
    have lt: "length (filter is_create xs) < 2 ^ 64"
      using Cons.prems(2) True by simp
    have "id_text (nextSignalId_m st) now \<notin> set (created_ids xs rs')"
    proof
      assume "id_text (nextSignalId_m st) now \<in> set (created_ids xs rs')"
      from created_shape [OF rest this] obtain k now' where
        k: "k < length (filter is_create xs)"
        and e: "id_text (nextSignalId_m st) now = id_text (nextSignalId_m st' + word_of_nat k) now'"
        by blast
      from id_text_inj [OF e] have "nextSignalId_m st = nextSignalId_m st + word_of_nat (Suc k)"
        by (simp add: st' add.assoc)
      then have z: "(word_of_nat (Suc k) :: 64 word) = 0"
        by simp
      have "Suc k < 2 ^ 64" using k lt by simp
      from word_of_nat_nonzero [OF _ this] z show False by simp
    qed
    then show ?thesis using ih by (simp add: rs r x)
  qed
qed

lemma created_length:
  "run xs st w = (rs, st1, w1, calls) \<Longrightarrow>
     length (created_ids xs rs) = length (filter is_create xs)"
proof (induction xs arbitrary: st w rs st1 w1 calls)
  case Nil
  then show ?case by simp
next
  case (Cons x xs)
  obtain r st' w' c' where i: "invoke x st w = (r, st', w', c')"
    by (cases "invoke x st w")
  obtain rs' st'' w'' c'' where rest: "run xs st' w' = (rs', st'', w'', c'')"
    by (cases "run xs st' w'")
  have rs: "rs = r # rs'"
    using Cons.prems(1) run_Cons [OF i rest] by simp
  show ?case
  proof (cases "is_create x")
    case False
    then show ?thesis using Cons.IH [OF rest] by (simp add: rs created_ids_other)
  next
    case True
    then obtain v now where x: "x = CreateSignal v now" by (cases x) simp_all
    have r: "r = Inr (ret_id (id_text (nextSignalId_m st) now))"
      using i unfolding x invoke_create by simp
    show ?thesis using Cons.IH [OF rest] by (simp add: rs r x)
  qed
qed

lemma ex_ops_run:
  "fst (run ex_ops (JSISignalStore_ctor :: string list JSISignalStore) []) =
     [Inr (ret_id ''sig_0_5''), Inr ret_void, Inr (ret_id ''sig_1_5''), Inr ret_void,
      Inr (ret_id ''sig_2_5'')]"
  by (simp add: ex_ops_def createSignal_result JSISignalStore_ctor_def deleteSignal_def
      clear_def show_int_def show_nat_digit)

text \<open>
  In every run of calls from every store, with deletions and clearing in between or not,
  the counter has been incremented once per \<open>createSignal\<close> and by nothing else, every
  \<open>createSignal\<close> has returned an id, and as long as the run creates at most \<open>2^64\<close>
  signals all those ids are different, whatever the clock says.
\<close>

lemma created_ids_unique:
  assumes "run xs st w = (rs, st1, w1, calls)"
    and "length (filter is_create xs) \<le> 2 ^ 64"
  shows "distinct (created_ids xs rs) \<and>
         length (created_ids xs rs) = length (filter is_create xs) \<and>
         nextSignalId_m st1 = nextSignalId_m st + word_of_nat (length (filter is_create xs))"
  using created_distinct [OF assms] created_length [OF assms(1)] run_counter [OF assms(1)]
  by simp

lemma created_ids_unique_example:
  "length (filter is_create ex_ops) \<le> 2 ^ 64 \<and>
   created_ids ex_ops (fst (run ex_ops (JSISignalStore_ctor :: string list JSISignalStore) [])) =
     [''sig_0_5'', ''sig_1_5'', ''sig_2_5''] \<and>
   distinct (created_ids ex_ops
     (fst (run ex_ops (JSISignalStore_ctor :: string list JSISignalStore) [])))"
proof -
  let ?R = "run ex_ops (JSISignalStore_ctor :: string list JSISignalStore) []"
  have e: "?R = (fst ?R, fst (snd ?R), fst (snd (snd ?R)), snd (snd (snd ?R)))"
    by simp
  have le: "length (filter is_create ex_ops) \<le> 2 ^ 64"
    by (simp add: ex_ops_def)
  have ids: "created_ids ex_ops (fst ?R) = [''sig_0_5'', ''sig_1_5'', ''sig_2_5'']"
    unfolding ex_ops_run by (simp add: ex_ops_def)
  from created_ids_unique [OF e le] le ids show ?thesis
    by (simp del: run.simps)
qed

text \<open>
  Two ids are the same text exactly when both the counter value and the clock reading
  they were built from are the same.
\<close>

lemma show_nat_no_minus: "CHR ''-'' \<notin> set (show_nat n)"
proof (induction n rule: show_nat.induct)
  case (1 n)
  have d: "digit_char k \<noteq> CHR ''-''" if "k < 10" for k
    using digit_char_in [OF that] by auto
  show ?case
  proof (cases "n < 10")
    case True
    then show ?thesis using d [of n] by (simp add: show_nat_small)
  next
    case False
    then show ?thesis using 1 d [of "n mod 10"] by (auto simp add: show_nat_large)
  qed
qed

lemma show_int_inj: "show_int i = show_int j \<Longrightarrow> i = j"
proof -
  assume e: "show_int i = show_int j"
  have m: "CHR ''-'' # xs \<noteq> show_nat n" for xs n
    using show_nat_no_minus [of n] by (metis list.set_intros(1))
  show "i = j"
  proof (cases "i < 0")
    case i: True
    show ?thesis
    proof (cases "j < 0")
      case True
      with i e have "show_nat (nat (- i)) = show_nat (nat (- j))"
        by (simp add: show_int_def)
      then have "nat (- i) = nat (- j)" by (rule show_nat_inj)
      with i True show ?thesis by simp
    next
      case False
      with i e m show ?thesis by (simp add: show_int_def)
    qed
  next
    case i: False
    show ?thesis
    proof (cases "j < 0")
      case True
      with i e m [of "show_nat (nat (- j))" "nat i"] show ?thesis
        by (simp add: show_int_def)
    next
      case False
      with i e have "show_nat (nat i) = show_nat (nat j)"
        by (simp add: show_int_def)
      then have "nat i = nat j" by (rule show_nat_inj)
      with i False show ?thesis by simp
    qed
  qed
qed

lemma id_text_eq_iff: "id_text c now = id_text c' now' \<longleftrightarrow> c = c' \<and> now = now'"
proof
  assume e: "id_text c now = id_text c' now'"
  have c: "c = c'" using e by (rule id_text_inj)
  from e have "show_int (sint now) = show_int (sint now')"
    by (simp add: id_text_def c)
  then have "sint now = sint now'" by (rule show_int_inj)
  then have "now = now'" by (rule signed_word_eqI)
  with c show "c = c' \<and> now = now'" by simp
qed simp

subsection \<open>A run across the wrap of the id counter\<close>












end
